theory Spec2Isabelle
  imports Main
begin

unbundle bit_operations_syntax

section \<open>Python values used by gotobrainfuck.py\<close>

text \<open>
  The exceptions the module can raise, either with an explicit \<open>raise\<close>
  (\<open>SyntaxError\<close>, \<open>TimeoutError\<close>, \<open>NotImplementedError\<close>) or from a built-in
  operation (\<open>IndexError\<close> from indexing a tuple or a bytearray out of range,
  \<open>ZeroDivisionError\<close> from \<open>%\<close>, \<open>ValueError\<close> from \<open>bytes(...)\<close>,
  \<open>TypeError\<close> from \<open>ord(...)\<close>, \<open>UnicodeEncodeError\<close> from writing a
  character to a text file whose encoding cannot represent it).
\<close>

datatype error =
    SyntaxError
  | TimeoutError
  | NotImplementedError
  | IndexError
  | ZeroDivisionError
  | ValueError
  | TypeError
  | UnicodeEncodeError

text \<open>
  Byte strings produced and consumed at run time are lists of integers, each in
  \<open>[0, 256)\<close>. The program text is a \<open>bytes\<close> object that is only sliced and
  compared with one-byte literals; it is a \<open>string\<close>, whose characters are the
  256 byte values.
\<close>

type_synonym bytes = "int list"

text \<open>
  \<open>seq[i]\<close> on a tuple or bytearray: an index in \<open>[0, len)\<close> is taken as it
  is, an index in \<open>[-len, 0)\<close> counts from the end, anything else raises
  \<open>IndexError\<close> (\<open>None\<close> here).
\<close>

definition getitem :: "'a list \<Rightarrow> int \<Rightarrow> 'a option" where
  "getitem xs i =
     (let n = int (length xs) in
      if 0 \<le> i \<and> i < n then Some (xs ! nat i)
      else if - n \<le> i \<and> i < 0 then Some (xs ! nat (n + i))
      else None)"

definition setitem :: "'a list \<Rightarrow> int \<Rightarrow> 'a \<Rightarrow> 'a list option" where
  "setitem xs i v =
     (let n = int (length xs) in
      if 0 \<le> i \<and> i < n then Some (xs[nat i := v])
      else if - n \<le> i \<and> i < 0 then Some (xs[nat (n + i) := v])
      else None)"

text \<open>
  \<open>stream.read(n)\<close> on the items a stream still holds: all of them when \<open>n\<close> is
  negative, at most \<open>n\<close> otherwise. The result is the data and what is left.
\<close>

definition stream_read :: "int \<Rightarrow> 'a list \<Rightarrow> 'a list \<times> 'a list" where
  "stream_read n xs = (if n < 0 then (xs, []) else (take (nat n) xs, drop (nat n) xs))"

text \<open>\<open>ord(b)\<close> on a bytes object: its only byte, \<open>TypeError\<close> unless the length is 1.\<close>

fun ord :: "bytes \<Rightarrow> error + int" where
  "ord [b] = Inr b"
| "ord _ = Inl TypeError"

section \<open>SourceCode\<close>

record SourceCode =
  code :: string
  ptr :: nat

definition SourceCode_init :: "string \<Rightarrow> SourceCode" where
  "SourceCode_init source = \<lparr>code = source, ptr = 0\<rparr>"

text \<open>\<open>code[ptr:ptr+1]\<close>, then \<open>ptr += 1\<close>; the slice is empty from the end of the text on.\<close>

definition read_next_token :: "SourceCode \<Rightarrow> string \<times> SourceCode" where
  "read_next_token src =
     (take 1 (drop (SourceCode.ptr src) (code src)),
      src\<lparr>SourceCode.ptr := SourceCode.ptr src + 1\<rparr>)"

section \<open>Tokens and Context\<close>

datatype Token =
    ExitToken
  | GoToToken
  | PlusToken
  | MinusToken
  | ForwardToken
  | BackwardToken
  | PrintToken
  | ReadToken

text \<open>
  The input file, by what \<open>Context.read\<close> distinguishes: \<open>None\<close>; an instance of
  \<open>typing.BinaryIO\<close>, whose \<open>read\<close> result is returned as it is; and any other
  object, whose \<open>read\<close> result is passed through \<open>bytes(map(ord, ...))\<close>. For
  the last, a text stream yields a \<open>str\<close> (a list of code points), and a byte stream
  that is no \<open>typing.BinaryIO\<close> instance yields \<open>bytes\<close>, on whose items
  \<open>ord\<close> raises. Each constructor holds the items not yet read.
\<close>

datatype input_file =
    NoInput
  | TypingBinaryIO bytes
  | TextStream "int list"
  | BytesStream bytes

text \<open>
  The output file, by the two branches of \<open>Context.write\<close>: a text file (an
  instance of \<open>typing.TextIO\<close>, \<open>TextIOWrapper\<close> or \<open>StringIO\<close>), which
  receives one character \<open>chr(b)\<close> per byte (the code point \<open>b\<close>), or anything
  else, which receives the bytes. A text file encodes what it receives, and its
  \<open>write\<close> raises \<open>UnicodeEncodeError\<close> on a character its encoding cannot
  represent: the first argument of \<open>TextOutput\<close> is the set of those code points
  (empty for a \<open>StringIO\<close> or a UTF-8 file, \<open>{128..255}\<close> for an ASCII file).
  The last argument of each constructor is what has been written.
\<close>

datatype output_file =
    TextOutput "int set" "int list"
  | BinaryOutput bytes

fun written :: "output_file \<Rightarrow> int list" where
  "written (TextOutput bad s) = s"
| "written (BinaryOutput b) = b"

record Context =
  buffer :: "int list"
  ptr :: int
  input_file :: input_file
  output_file :: output_file
  num_cycles_left :: int

text \<open>\<open>Context.__init__\<close>: \<open>bytearray([0]) * buffer_size\<close> is empty for a size below 1.\<close>

definition Context_init :: "input_file \<Rightarrow> output_file \<Rightarrow> int \<Rightarrow> int \<Rightarrow> Context" where
  "Context_init inp out buffer_size num_cycles_limit =
     \<lparr>buffer = replicate (nat buffer_size) 0,
      ptr = 0,
      input_file = inp,
      output_file = out,
      num_cycles_left = num_cycles_limit\<rparr>"

text \<open>\<open>Context.read\<close>: the three branches, in the order of the source.\<close>

definition Context_read :: "Context \<Rightarrow> int \<Rightarrow> (error \<times> Context) + (bytes \<times> Context)" where
  "Context_read ctx n =
     (case input_file ctx of
        NoInput \<Rightarrow> Inr ([], ctx)
      | TypingBinaryIO xs \<Rightarrow>
          (case stream_read n xs of
             (data, rest) \<Rightarrow> Inr (data, ctx\<lparr>input_file := TypingBinaryIO rest\<rparr>))
      | TextStream xs \<Rightarrow>
          (case stream_read n xs of
             (data, rest) \<Rightarrow>
               if list_all (\<lambda>c. 0 \<le> c \<and> c < 256) data
               then Inr (data, ctx\<lparr>input_file := TextStream rest\<rparr>)
               else Inl (ValueError, ctx\<lparr>input_file := TextStream rest\<rparr>))
      | BytesStream xs \<Rightarrow>
          (case stream_read n xs of
             (data, rest) \<Rightarrow>
               if data = []
               then Inr ([], ctx\<lparr>input_file := BytesStream rest\<rparr>)
               else Inl (TypeError, ctx\<lparr>input_file := BytesStream rest\<rparr>)))"

text \<open>
  \<open>Context.write\<close>: the text branch writes the string of the characters
  \<open>chr(b)\<close>, which the file refuses as a whole, with \<open>UnicodeEncodeError\<close>,
  when it cannot encode one of them; the other branch writes the bytes. Then the
  file is flushed.
\<close>

definition Context_write :: "Context \<Rightarrow> bytes \<Rightarrow> error + Context" where
  "Context_write ctx bs =
     (case output_file ctx of
        TextOutput bad s \<Rightarrow>
          if list_all (\<lambda>b. b \<notin> bad) bs
          then Inr (ctx\<lparr>output_file := TextOutput bad (s @ bs)\<rparr>)
          else Inl UnicodeEncodeError
      | BinaryOutput b \<Rightarrow> Inr (ctx\<lparr>output_file := BinaryOutput (b @ bs)\<rparr>))"

text \<open>The property \<open>current_value\<close>: \<open>buffer[ptr]\<close>, and \<open>buffer[ptr] = value & 255\<close>.\<close>

definition current_value :: "Context \<Rightarrow> error + int" where
  "current_value ctx =
     (case getitem (buffer ctx) (ptr ctx) of
        None \<Rightarrow> Inl IndexError
      | Some v \<Rightarrow> Inr v)"

definition set_current_value :: "Context \<Rightarrow> int \<Rightarrow> error + Context" where
  "set_current_value ctx v =
     (case setitem (buffer ctx) (ptr ctx) (v AND 255) of
        None \<Rightarrow> Inl IndexError
      | Some b \<Rightarrow> Inr (ctx\<lparr>buffer := b\<rparr>))"

text \<open>The property \<open>pointer\<close>: \<open>ptr\<close>, and \<open>ptr = value % len(buffer)\<close>.\<close>

definition pointer :: "Context \<Rightarrow> int" where
  "pointer ctx = ptr ctx"

definition set_pointer :: "Context \<Rightarrow> int \<Rightarrow> error + Context" where
  "set_pointer ctx v =
     (if length (buffer ctx) = 0 then Inl ZeroDivisionError
      else Inr (ctx\<lparr>ptr := v mod int (length (buffer ctx))\<rparr>))"

text \<open>
  \<open>token.exec(context)\<close> for each class. The result is the returned integer and
  the context, or the exception and the context as the exception leaves it.
  \<open>ExitToken\<close> inherits \<open>Token.exec\<close>.
\<close>

fun Token_exec :: "Token \<Rightarrow> Context \<Rightarrow> (error \<times> Context) + (int \<times> Context)" where
  "Token_exec ExitToken ctx = Inl (NotImplementedError, ctx)"
| "Token_exec GoToToken ctx =
     (case current_value ctx of
        Inl e \<Rightarrow> Inl (e, ctx)
      | Inr v \<Rightarrow> Inr (v, ctx))"
| "Token_exec PlusToken ctx =
     (case current_value ctx of
        Inl e \<Rightarrow> Inl (e, ctx)
      | Inr v \<Rightarrow>
          (case set_current_value ctx (v + 1) of
             Inl e \<Rightarrow> Inl (e, ctx)
           | Inr ctx' \<Rightarrow> Inr (- 1, ctx')))"
| "Token_exec MinusToken ctx =
     (case current_value ctx of
        Inl e \<Rightarrow> Inl (e, ctx)
      | Inr v \<Rightarrow>
          (case set_current_value ctx (v - 1) of
             Inl e \<Rightarrow> Inl (e, ctx)
           | Inr ctx' \<Rightarrow> Inr (- 1, ctx')))"
| "Token_exec ForwardToken ctx =
     (case set_pointer ctx (pointer ctx + 1) of
        Inl e \<Rightarrow> Inl (e, ctx)
      | Inr ctx' \<Rightarrow> Inr (- 1, ctx'))"
| "Token_exec BackwardToken ctx =
     (case set_pointer ctx (pointer ctx - 1) of
        Inl e \<Rightarrow> Inl (e, ctx)
      | Inr ctx' \<Rightarrow> Inr (- 1, ctx'))"
| "Token_exec PrintToken ctx =
     (case current_value ctx of
        Inl e \<Rightarrow> Inl (e, ctx)
      | Inr v \<Rightarrow>
          (case Context_write ctx [v] of
             Inl e \<Rightarrow> Inl (e, ctx)
           | Inr ctx' \<Rightarrow> Inr (- 1, ctx')))"
| "Token_exec ReadToken ctx =
     (case Context_read ctx 1 of
        Inl (e, c) \<Rightarrow> Inl (e, c)
      | Inr (data, c) \<Rightarrow>
          (case ord (if data = [] then [0] else data) of
             Inl e \<Rightarrow> Inl (e, c)
           | Inr v \<Rightarrow>
               (case set_current_value c v of
                  Inl e \<Rightarrow> Inl (e, c)
                | Inr c' \<Rightarrow> Inr (- 1, c'))))"

text \<open>\<open>Context.exec\<close>: the fuel test, the decrement, then the token.\<close>

definition Context_exec :: "Context \<Rightarrow> Token \<Rightarrow> (error \<times> Context) + (int \<times> Context)" where
  "Context_exec ctx token =
     (if num_cycles_left ctx = 0 then Inl (TimeoutError, ctx)
      else Token_exec token (ctx\<lparr>num_cycles_left := num_cycles_left ctx - 1\<rparr>))"

section \<open>Code\<close>

datatype Code = Code (tokens: "Token list")

subsection \<open>Code.parse\<close>

text \<open>The \<open>if\<close>/\<open>elif\<close> chain of the loop body: the new token, or \<open>SyntaxError\<close>.\<close>

definition new_token :: "string \<Rightarrow> error + Token" where
  "new_token token =
     (if token = ''.'' then Inr PrintToken
      else if token = '','' then Inr ReadToken
      else if token = ''+'' then Inr PlusToken
      else if token = ''-'' then Inr MinusToken
      else if token = ''>'' then Inr ForwardToken
      else if token = ''<'' then Inr BackwardToken
      else if token = ''^'' then Inr GoToToken
      else if token = '';'' then Inr ExitToken
      else Inl SyntaxError)"

text \<open>
  The \<open>while\<close> loop of \<open>Code.parse\<close>, with the list built so far. It returns the
  source object as the loop leaves it, beside the exception or the tokens.
\<close>

function parse_loop :: "SourceCode \<Rightarrow> Token list \<Rightarrow> (error + Token list) \<times> SourceCode" where
  "parse_loop src toks =
     (case read_next_token src of
        (token, src') \<Rightarrow>
          if token = [] then (Inr toks, src')
          else (case new_token token of
                  Inl e \<Rightarrow> (Inl e, src')
                | Inr t \<Rightarrow> parse_loop src' (toks @ [t])))"
  by pat_completeness auto
termination
  by (relation "measure (\<lambda>(src, toks). length (code src) - SourceCode.ptr src)")
     (auto simp: read_next_token_def)

declare parse_loop.simps [simp del]

definition parse :: "SourceCode \<Rightarrow> (error + Code) \<times> SourceCode" where
  "parse source_code =
     (case parse_loop source_code [] of
        (Inl e, src') \<Rightarrow> (Inl e, src')
      | (Inr toks, src') \<Rightarrow> (Inr (Code toks), src'))"

subsection \<open>Code.exec\<close>

text \<open>
  One turn of the \<open>while\<close> loop of \<open>Code.exec\<close>: the fetch \<open>self.tokens[code_pt]\<close>,
  the test for \<open>ExitToken\<close>, \<open>context.exec(token)\<close>, and the new \<open>code_pt\<close>.
\<close>

datatype step_result =
    Halted Context
  | Raised error Context
  | Next Context int

definition Code_step :: "Token list \<Rightarrow> Context \<Rightarrow> int \<Rightarrow> step_result" where
  "Code_step toks ctx code_pt =
     (case getitem toks code_pt of
        None \<Rightarrow> Raised IndexError ctx
      | Some token \<Rightarrow>
          if token = ExitToken then Halted ctx
          else (case Context_exec ctx token of
                  Inl (e, ctx') \<Rightarrow> Raised e ctx'
                | Inr (pt, ctx') \<Rightarrow> Next ctx' (if pt < 0 then code_pt + 1 else pt)))"

text \<open>
  The loop. It need not end (a negative fuel counter never reaches 0), so it is a
  partial function: \<open>None\<close> is a run that never returns, \<open>Some (Inr ctx)\<close> a run
  that returns, \<open>Some (Inl (e, ctx))\<close> a run that raises \<open>e\<close>.
\<close>

partial_function (option) Code_exec_loop ::
  "Token list \<Rightarrow> Context \<Rightarrow> int \<Rightarrow> ((error \<times> Context) + Context) option" where
  "Code_exec_loop toks ctx code_pt =
     (case Code_step toks ctx code_pt of
        Halted c \<Rightarrow> Some (Inr c)
      | Raised e c \<Rightarrow> Some (Inl (e, c))
      | Next c pc \<Rightarrow> Code_exec_loop toks c pc)"

definition Code_exec :: "Code \<Rightarrow> Context \<Rightarrow> ((error \<times> Context) + Context) option" where
  "Code_exec c ctx = Code_exec_loop (tokens c) ctx 0"

subsection \<open>The module-level entry point\<close>

text \<open>
  The function at the end of the module (its name is \<open>exec\<close> with an accented
  first letter): the context is built, the text parsed, the code run.
\<close>

definition module_exec ::
  "string \<Rightarrow> input_file \<Rightarrow> output_file \<Rightarrow> int \<Rightarrow> int \<Rightarrow> ((error \<times> Context) + Context) option" where
  "module_exec source_code inp out buffer_size num_cycles_limit =
     (let context = Context_init inp out buffer_size num_cycles_limit in
      case fst (parse (SourceCode_init source_code)) of
        Inl e \<Rightarrow> Some (Inl (e, context))
      | Inr c \<Rightarrow> Code_exec c context)"

section \<open>Reachable states, invariants and the notions of the properties\<close>

text \<open>
  The states of the loop of \<open>Code.exec\<close>: the context and \<open>code_pt\<close>. A run on
  the context \<open>c0\<close> starts at address 0; every completed turn of the loop gives
  the next state.
\<close>

inductive reachable :: "Token list \<Rightarrow> Context \<Rightarrow> Context \<times> int \<Rightarrow> bool"
  for toks :: "Token list" and c0 :: Context where
  start: "reachable toks c0 (c0, 0)"
| step: "reachable toks c0 (ctx, pc) \<Longrightarrow> Code_step toks ctx pc = Next ctx' pc'
         \<Longrightarrow> reachable toks c0 (ctx', pc')"

text \<open>Every cell holds a byte; the cursor indexes a cell.\<close>

definition cells_ok :: "Context \<Rightarrow> bool" where
  "cells_ok ctx = list_all (\<lambda>v. 0 \<le> v \<and> v < 256) (buffer ctx)"

definition ptr_ok :: "Context \<Rightarrow> bool" where
  "ptr_ok ctx = (0 \<le> ptr ctx \<and> ptr ctx < int (length (buffer ctx)))"



text \<open>The net effect of a sequence of increments and decrements.\<close>

definition net_delta :: "Token list \<Rightarrow> int" where
  "net_delta ops = int (count_list ops PlusToken) - int (count_list ops MinusToken)"

text \<open>
  The table of the language as the specification gives it, byte by byte; \<open>Code.parse\<close>
  is compared with it below.
\<close>

definition opcode_table :: "char \<Rightarrow> Token option" where
  "opcode_table =
     [CHR ''.'' \<mapsto> PrintToken, CHR '','' \<mapsto> ReadToken, CHR ''+'' \<mapsto> PlusToken,
      CHR ''-'' \<mapsto> MinusToken, CHR ''>'' \<mapsto> ForwardToken, CHR ''<'' \<mapsto> BackwardToken,
      CHR ''^'' \<mapsto> GoToToken, CHR '';'' \<mapsto> ExitToken]"

section \<open>Basic facts\<close>

lemma and_255: "(x::int) AND 255 = x mod 256"
  using take_bit_eq_mask[of 8 x] by (simp add: take_bit_eq_mod mask_eq_exp_minus_1)

lemma getitem_in_range: "0 \<le> i \<Longrightarrow> i < int (length xs) \<Longrightarrow> getitem xs i = Some (xs ! nat i)"
  by (simp add: getitem_def)


lemma setitem_in_range:
  "0 \<le> i \<Longrightarrow> i < int (length xs) \<Longrightarrow> setitem xs i v = Some (xs[nat i := v])"
  by (simp add: setitem_def)

lemma loop_Halted:
  "Code_step toks ctx pc = Halted c \<Longrightarrow> Code_exec_loop toks ctx pc = Some (Inr c)"
  by (subst Code_exec_loop.simps) simp

lemma loop_Raised:
  "Code_step toks ctx pc = Raised e c \<Longrightarrow> Code_exec_loop toks ctx pc = Some (Inl (e, c))"
  by (subst Code_exec_loop.simps) simp

lemma loop_Next:
  "Code_step toks ctx pc = Next c pc' \<Longrightarrow>
     Code_exec_loop toks ctx pc = Code_exec_loop toks c pc'"
  by (subst Code_exec_loop.simps) simp


lemma Code_step_Next_nonneg:
  assumes "Code_step toks ctx pc = Next ctx' pc'" and "0 \<le> pc"
  shows "0 \<le> pc'"
  using assms
  by (auto simp: Code_step_def split: option.splits if_splits sum.splits prod.splits)

lemma reachable_nonneg: "reachable toks c0 s \<Longrightarrow> 0 \<le> snd s"
  by (induction rule: reachable.induct) (auto dest: Code_step_Next_nonneg)

section \<open>What the tokens preserve\<close>

lemma byte_and_255: "0 \<le> (x::int) AND 255 \<and> x AND 255 < 256"
  by (simp add: and_255)

lemma list_all_update: "list_all P xs \<Longrightarrow> P v \<Longrightarrow> list_all P (xs[i := v])"
  by (induction xs arbitrary: i) (auto split: nat.splits)

lemma setitem_length: "setitem xs i v = Some ys \<Longrightarrow> length ys = length xs"
  by (auto simp: setitem_def Let_def split: if_splits)

lemma setitem_list_all: "setitem xs i v = Some ys \<Longrightarrow> list_all P xs \<Longrightarrow> P v \<Longrightarrow> list_all P ys"
  by (auto simp: setitem_def Let_def list_all_update split: if_splits)

lemma set_current_value_facts:
  assumes "set_current_value ctx v = Inr ctx'"
  shows "length (buffer ctx') = length (buffer ctx)"
    and "ptr ctx' = ptr ctx"
    and "num_cycles_left ctx' = num_cycles_left ctx"
    and "output_file ctx' = output_file ctx"
    and "input_file ctx' = input_file ctx"
    and "cells_ok ctx \<Longrightarrow> cells_ok ctx'"
  using assms
  by (auto simp: set_current_value_def cells_ok_def byte_and_255
      split: option.splits dest: setitem_length setitem_list_all)

lemma set_pointer_facts:
  assumes "set_pointer ctx v = Inr ctx'"
  shows "buffer ctx' = buffer ctx"
    and "ptr_ok ctx'"
    and "num_cycles_left ctx' = num_cycles_left ctx"
    and "output_file ctx' = output_file ctx"
    and "input_file ctx' = input_file ctx"
  using assms
  by (auto simp: set_pointer_def ptr_ok_def split: if_splits)

lemma Context_read_facts:
  assumes "Context_read ctx n = Inr (data, ctx')"
  shows "buffer ctx' = buffer ctx"
    and "ptr ctx' = ptr ctx"
    and "num_cycles_left ctx' = num_cycles_left ctx"
    and "output_file ctx' = output_file ctx"
  using assms
  by (auto simp: Context_read_def split: input_file.splits prod.splits if_splits)

lemma Context_write_facts:
  assumes "Context_write ctx bs = Inr ctx'"
  shows "buffer ctx' = buffer ctx"
    and "ptr ctx' = ptr ctx"
    and "num_cycles_left ctx' = num_cycles_left ctx"
    and "input_file ctx' = input_file ctx"
  using assms
  by (auto simp: Context_write_def split: output_file.splits if_splits)

lemma Token_exec_Read:
  "Token_exec ReadToken ctx = Inr (pt, ctx') \<Longrightarrow>
     \<exists>data c v. Context_read ctx 1 = Inr (data, c) \<and> set_current_value c v = Inr ctx' \<and> pt = - 1"
  by (auto split: sum.splits prod.splits)

lemma Token_exec_length:
  "Token_exec t ctx = Inr (pt, ctx') \<Longrightarrow> length (buffer ctx') = length (buffer ctx)"
proof (cases t)
  case ReadToken
  assume a: "Token_exec t ctx = Inr (pt, ctx')"
  from a ReadToken obtain data c v where r: "Context_read ctx 1 = Inr (data, c)"
    and s: "set_current_value c v = Inr ctx'"
    using Token_exec_Read[of ctx pt ctx'] by auto
  show ?thesis
    by (simp add: set_current_value_facts(1)[OF s] Context_read_facts(1)[OF r])
qed (auto split: sum.splits prod.splits
       dest: set_current_value_facts set_pointer_facts Context_write_facts)

lemma Token_exec_cells_ok:
  "Token_exec t ctx = Inr (pt, ctx') \<Longrightarrow> cells_ok ctx \<Longrightarrow> cells_ok ctx'"
proof (cases t)
  case ReadToken
  assume a: "Token_exec t ctx = Inr (pt, ctx')" "cells_ok ctx"
  from a(1) ReadToken obtain data c v where r: "Context_read ctx 1 = Inr (data, c)"
    and s: "set_current_value c v = Inr ctx'"
    using Token_exec_Read[of ctx pt ctx'] by auto
  from r a(2) have "cells_ok c" by (simp add: cells_ok_def Context_read_facts(1))
  then show ?thesis using s by (rule set_current_value_facts(6)[rotated])
qed (auto simp: cells_ok_def split: sum.splits prod.splits
       dest: set_current_value_facts[unfolded cells_ok_def] set_pointer_facts
         Context_write_facts)

lemma Token_exec_ptr_ok:
  "Token_exec t ctx = Inr (pt, ctx') \<Longrightarrow> ptr_ok ctx \<Longrightarrow> ptr_ok ctx'"
proof (cases t)
  case ReadToken
  assume a: "Token_exec t ctx = Inr (pt, ctx')" "ptr_ok ctx"
  from a(1) ReadToken obtain data c v where r: "Context_read ctx 1 = Inr (data, c)"
    and s: "set_current_value c v = Inr ctx'"
    using Token_exec_Read[of ctx pt ctx'] by auto
  show ?thesis using a(2)
    by (simp add: ptr_ok_def set_current_value_facts(1,2)[OF s] Context_read_facts(1,2)[OF r])
qed (auto simp: ptr_ok_def set_current_value_def set_pointer_def Context_write_def
       split: sum.splits prod.splits option.splits if_splits output_file.splits
       dest: setitem_length)

lemma Token_exec_fuel:
  "Token_exec t ctx = Inr (pt, ctx') \<Longrightarrow> num_cycles_left ctx' = num_cycles_left ctx"
proof (cases t)
  case ReadToken
  assume a: "Token_exec t ctx = Inr (pt, ctx')"
  from a(1) ReadToken obtain data c v where r: "Context_read ctx 1 = Inr (data, c)"
    and s: "set_current_value c v = Inr ctx'"
    using Token_exec_Read[of ctx pt ctx'] by auto
  show ?thesis
    by (simp add: set_current_value_facts(3)[OF s] Context_read_facts(3)[OF r])
qed (auto split: sum.splits prod.splits
       dest: set_current_value_facts set_pointer_facts Context_write_facts)

lemma Code_step_NextD:
  assumes "Code_step toks ctx pc = Next ctx' pc'"
  shows "\<exists>t pt. getitem toks pc = Some t \<and> t \<noteq> ExitToken \<and> num_cycles_left ctx \<noteq> 0
          \<and> Token_exec t (ctx\<lparr>num_cycles_left := num_cycles_left ctx - 1\<rparr>) = Inr (pt, ctx')
          \<and> pc' = (if pt < 0 then pc + 1 else pt)"
  using assms
  by (auto simp: Code_step_def Context_exec_def split: option.splits if_splits sum.splits prod.splits)

lemma cells_ok_fuel [simp]: "cells_ok (ctx\<lparr>num_cycles_left := n\<rparr>) = cells_ok ctx"
  by (simp add: cells_ok_def)

lemma ptr_ok_fuel [simp]: "ptr_ok (ctx\<lparr>num_cycles_left := n\<rparr>) = ptr_ok ctx"
  by (simp add: ptr_ok_def)

lemma Code_step_cells_ok:
  "Code_step toks ctx pc = Next ctx' pc' \<Longrightarrow> cells_ok ctx \<Longrightarrow> cells_ok ctx'"
  by (drule Code_step_NextD) (auto dest: Token_exec_cells_ok)

lemma Code_step_ptr_ok:
  "Code_step toks ctx pc = Next ctx' pc' \<Longrightarrow> ptr_ok ctx \<Longrightarrow> ptr_ok ctx'"
  by (drule Code_step_NextD) (auto dest: Token_exec_ptr_ok)

lemma Code_step_length:
  "Code_step toks ctx pc = Next ctx' pc' \<Longrightarrow> length (buffer ctx') = length (buffer ctx)"
  by (drule Code_step_NextD) (auto dest: Token_exec_length)

lemma Code_step_fuel:
  "Code_step toks ctx pc = Next ctx' pc' \<Longrightarrow> num_cycles_left ctx' = num_cycles_left ctx - 1"
  by (drule Code_step_NextD) (auto dest: Token_exec_fuel)

lemma reachable_cells_ok: "reachable toks c0 s \<Longrightarrow> cells_ok c0 \<Longrightarrow> cells_ok (fst s)"
  by (induction rule: reachable.induct) (auto dest: Code_step_cells_ok)

lemma reachable_ptr_ok: "reachable toks c0 s \<Longrightarrow> ptr_ok c0 \<Longrightarrow> ptr_ok (fst s)"
  by (induction rule: reachable.induct) (auto dest: Code_step_ptr_ok)

lemma reachable_length: "reachable toks c0 s \<Longrightarrow> length (buffer (fst s)) = length (buffer c0)"
  by (induction rule: reachable.induct) (auto dest: Code_step_length)

lemma Context_init_cells_ok: "cells_ok (Context_init inp out buffer_size lim)"
  by (simp add: cells_ok_def Context_init_def list_all_iff)

lemma Context_init_ptr_ok: "0 < buffer_size \<Longrightarrow> ptr_ok (Context_init inp out buffer_size lim)"
  by (simp add: ptr_ok_def Context_init_def)

lemma Context_init_length: "length (buffer (Context_init inp out buffer_size lim)) = nat buffer_size"
  by (simp add: Context_init_def)

section \<open>The initial context\<close>

lemma Context_init_fuel [simp]:
  "(Context_init inp out b n)\<lparr>num_cycles_left := m\<rparr> = Context_init inp out b m"
  by (simp add: Context_init_def)

lemma Context_init_sel [simp]:
  "num_cycles_left (Context_init inp out b n) = n"
  "ptr (Context_init inp out b n) = 0"
  "input_file (Context_init inp out b n) = inp"
  "output_file (Context_init inp out b n) = out"
  by (simp_all add: Context_init_def)

lemma Context_init_cell0: "0 < b \<Longrightarrow> buffer (Context_init inp out b n) ! 0 = 0"
  by (simp add: Context_init_def)

section \<open>One turn of the loop, token by token\<close>

lemma current_value_ok:
  "ptr_ok ctx \<Longrightarrow> current_value ctx = Inr (buffer ctx ! nat (ptr ctx))"
  by (simp add: current_value_def ptr_ok_def getitem_in_range)

lemma current_value_byte:
  "cells_ok ctx \<Longrightarrow> current_value ctx = Inr v \<Longrightarrow> 0 \<le> v \<and> v < 256"
  by (auto simp: current_value_def cells_ok_def getitem_def Let_def list_all_length
      split: option.splits if_splits)

lemma set_current_value_ok:
  "ptr_ok ctx \<Longrightarrow>
     set_current_value ctx v = Inr (ctx\<lparr>buffer := (buffer ctx)[nat (ptr ctx) := v mod 256]\<rparr>)"
  by (simp add: set_current_value_def ptr_ok_def setitem_in_range and_255)

lemma set_pointer_ok:
  "ptr_ok ctx \<Longrightarrow>
     set_pointer ctx v = Inr (ctx\<lparr>ptr := v mod int (length (buffer ctx))\<rparr>)"
  by (auto simp: set_pointer_def ptr_ok_def)


lemma step_Plus:
  assumes "getitem toks pc = Some PlusToken" "num_cycles_left ctx \<noteq> 0" "ptr_ok ctx"
  shows "Code_step toks ctx pc
         = Next (ctx\<lparr>num_cycles_left := num_cycles_left ctx - 1,
                     buffer := (buffer ctx)[nat (ptr ctx) := (buffer ctx ! nat (ptr ctx) + 1) mod 256]\<rparr>)
                (pc + 1)"
proof -
  let ?c = "ctx\<lparr>num_cycles_left := num_cycles_left ctx - 1\<rparr>"
  have p: "ptr_ok ?c" using assms(3) by simp
  show ?thesis using assms(1,2)
    by (simp add: Code_step_def Context_exec_def current_value_ok[OF p] set_current_value_ok[OF p])
qed

lemma step_Minus:
  assumes "getitem toks pc = Some MinusToken" "num_cycles_left ctx \<noteq> 0" "ptr_ok ctx"
  shows "Code_step toks ctx pc
         = Next (ctx\<lparr>num_cycles_left := num_cycles_left ctx - 1,
                     buffer := (buffer ctx)[nat (ptr ctx) := (buffer ctx ! nat (ptr ctx) - 1) mod 256]\<rparr>)
                (pc + 1)"
proof -
  let ?c = "ctx\<lparr>num_cycles_left := num_cycles_left ctx - 1\<rparr>"
  have p: "ptr_ok ?c" using assms(3) by simp
  show ?thesis using assms(1,2)
    by (simp add: Code_step_def Context_exec_def current_value_ok[OF p] set_current_value_ok[OF p])
qed

lemma step_Forward:
  assumes "getitem toks pc = Some ForwardToken" "num_cycles_left ctx \<noteq> 0" "ptr_ok ctx"
  shows "Code_step toks ctx pc
         = Next (ctx\<lparr>num_cycles_left := num_cycles_left ctx - 1,
                     ptr := (ptr ctx + 1) mod int (length (buffer ctx))\<rparr>)
                (pc + 1)"
proof -
  let ?c = "ctx\<lparr>num_cycles_left := num_cycles_left ctx - 1\<rparr>"
  have p: "ptr_ok ?c" using assms(3) by simp
  show ?thesis using assms(1,2)
    by (simp add: Code_step_def Context_exec_def pointer_def set_pointer_ok[OF p])
qed

lemma step_Backward:
  assumes "getitem toks pc = Some BackwardToken" "num_cycles_left ctx \<noteq> 0" "ptr_ok ctx"
  shows "Code_step toks ctx pc
         = Next (ctx\<lparr>num_cycles_left := num_cycles_left ctx - 1,
                     ptr := (ptr ctx - 1) mod int (length (buffer ctx))\<rparr>)
                (pc + 1)"
proof -
  let ?c = "ctx\<lparr>num_cycles_left := num_cycles_left ctx - 1\<rparr>"
  have p: "ptr_ok ?c" using assms(3) by simp
  show ?thesis using assms(1,2)
    by (simp add: Code_step_def Context_exec_def pointer_def set_pointer_ok[OF p])
qed








section \<open>Runs\<close>

lemma nonneg_fuel_returns:
  assumes "num_cycles_left ctx = int n"
  shows "\<exists>r. Code_exec_loop toks ctx pc = Some r"
  using assms
proof (induction n arbitrary: ctx pc)
  case 0
  then show ?case
    by (subst Code_exec_loop.simps)
       (simp add: Code_step_def Context_exec_def split: option.splits)
next
  case (Suc n)
  show ?case
  proof (cases "Code_step toks ctx pc")
    case (Halted c)
    then show ?thesis by (simp add: loop_Halted)
  next
    case (Raised e c)
    then show ?thesis by (simp add: loop_Raised)
  next
    case (Next c pc')
    then have "num_cycles_left c = int n"
      using Code_step_fuel[OF Next] Suc.prems by simp
    from Suc.IH[OF this] show ?thesis by (simp add: loop_Next[OF Next])
  qed
qed

lemma getitem_GoTo_Exit_0: "getitem [GoToToken, ExitToken] 0 = Some GoToToken"
  by (simp add: getitem_def)

lemma goto_self_step:
  assumes "ptr_ok ctx" "buffer ctx ! nat (ptr ctx) = 0" "num_cycles_left ctx \<noteq> 0"
  shows "Code_step [GoToToken, ExitToken] ctx 0
         = Next (ctx\<lparr>num_cycles_left := num_cycles_left ctx - 1\<rparr>) 0"
proof -
  let ?c = "ctx\<lparr>num_cycles_left := num_cycles_left ctx - 1\<rparr>"
  have "current_value ?c = Inr 0" using assms(1,2) current_value_ok[of ?c] by simp
  then show ?thesis using assms(3)
    by (simp add: Code_step_def Context_exec_def getitem_GoTo_Exit_0)
qed

lemma goto_self_timeout:
  assumes "ptr_ok ctx" "buffer ctx ! nat (ptr ctx) = 0" "num_cycles_left ctx = int n"
  shows "Code_exec_loop [GoToToken, ExitToken] ctx 0
         = Some (Inl (TimeoutError, ctx\<lparr>num_cycles_left := 0\<rparr>))"
  using assms
proof (induction n arbitrary: ctx)
  case 0
  then have "Code_step [GoToToken, ExitToken] ctx 0 = Raised TimeoutError ctx"
    by (simp add: Code_step_def Context_exec_def getitem_GoTo_Exit_0)
  then have "Code_exec_loop [GoToToken, ExitToken] ctx 0 = Some (Inl (TimeoutError, ctx))"
    by (rule loop_Raised)
  moreover have "ctx\<lparr>num_cycles_left := 0\<rparr> = ctx" using 0 by simp
  ultimately show ?case by simp
next
  case (Suc n)
  let ?c = "ctx\<lparr>num_cycles_left := num_cycles_left ctx - 1\<rparr>"
  have s: "Code_step [GoToToken, ExitToken] ctx 0 = Next ?c 0"
    using Suc.prems by (intro goto_self_step) simp_all
  have "Code_exec_loop [GoToToken, ExitToken] ?c 0
        = Some (Inl (TimeoutError, ?c\<lparr>num_cycles_left := 0\<rparr>))"
    using Suc.prems by (intro Suc.IH) (simp_all add: ptr_ok_def)
  then show ?case using loop_Next[OF s] by simp
qed

lemma goto_self_no_result:
  assumes "Code_exec_loop toks c pc = Some y"
  shows "\<not> (toks = [GoToToken, ExitToken] \<and> pc = 0 \<and> ptr_ok c \<and> buffer c ! nat (ptr c) = 0
        \<and> num_cycles_left c < 0)"
proof (rule Code_exec_loop.raw_induct[where P = "\<lambda>toks c pc y.
        \<not> (toks = [GoToToken, ExitToken] \<and> pc = 0 \<and> ptr_ok c \<and> buffer c ! nat (ptr c) = 0
        \<and> num_cycles_left c < 0)", OF _ assms])
  fix loop :: "Token list \<Rightarrow> Context \<Rightarrow> int \<Rightarrow> ((error \<times> Context) + Context) option"
  fix toks c pc y
  assume IH: "\<And>toks c pc y. loop toks c pc = Some y \<Longrightarrow>
        \<not> (toks = [GoToToken, ExitToken] \<and> pc = 0 \<and> ptr_ok c \<and> buffer c ! nat (ptr c) = 0
        \<and> num_cycles_left c < 0)"
    and eq: "(case Code_step toks c pc of
                Halted c \<Rightarrow> Some (Inr c)
              | Raised e c \<Rightarrow> Some (Inl (e, c))
              | Next c pc \<Rightarrow> loop toks c pc) = Some y"
  show "\<not> (toks = [GoToToken, ExitToken] \<and> pc = 0 \<and> ptr_ok c \<and> buffer c ! nat (ptr c) = 0
        \<and> num_cycles_left c < 0)"
  proof
    assume a: "toks = [GoToToken, ExitToken] \<and> pc = 0 \<and> ptr_ok c \<and> buffer c ! nat (ptr c) = 0
         \<and> num_cycles_left c < 0"
    then have s: "Code_step toks c pc = Next (c\<lparr>num_cycles_left := num_cycles_left c - 1\<rparr>) 0"
      using goto_self_step[of c] by simp
    with eq have "loop toks (c\<lparr>num_cycles_left := num_cycles_left c - 1\<rparr>) 0 = Some y" by simp
    from IH[OF this] a show False by (simp add: ptr_ok_def)
  qed
qed

lemma goto_self_forever:
  assumes "ptr_ok ctx" "buffer ctx ! nat (ptr ctx) = 0" "num_cycles_left ctx < 0"
  shows "Code_exec_loop [GoToToken, ExitToken] ctx 0 = None"
proof (cases "Code_exec_loop [GoToToken, ExitToken] ctx 0")
  case (Some y)
  from goto_self_no_result[OF this] assms show ?thesis by simp
qed simp

lemma getitem_append_mid: "getitem (pre @ x # post) (int (length pre)) = Some x"
  by (simp add: getitem_def)

lemma getitem_append_end: "getitem (pre @ [x]) (int (length pre)) = Some x"
  by (simp add: getitem_def)

lemma run_plus_minus:
  assumes "set ops \<subseteq> {PlusToken, MinusToken}"
    and "ptr_ok ctx"
    and "0 \<le> buffer ctx ! nat (ptr ctx) \<and> buffer ctx ! nat (ptr ctx) < 256"
    and "int (length ops) \<le> num_cycles_left ctx"
  shows "\<exists>ctx'. Code_exec_loop (pre @ ops @ [ExitToken]) ctx (int (length pre)) = Some (Inr ctx')
           \<and> ptr ctx' = ptr ctx \<and> length (buffer ctx') = length (buffer ctx)
           \<and> buffer ctx' ! nat (ptr ctx') = (buffer ctx ! nat (ptr ctx) + net_delta ops) mod 256"
  using assms
proof (induction ops arbitrary: pre ctx)
  case Nil
  have "Code_exec_loop (pre @ [ExitToken]) ctx (int (length pre)) = Some (Inr ctx)"
    by (intro loop_Halted) (simp add: Code_step_def getitem_append_end)
  with Nil show ?case by (simp add: net_delta_def)
next
  case (Cons op ops)
  let ?toks = "pre @ (op # ops) @ [ExitToken]"
  let ?v = "buffer ctx ! nat (ptr ctx)"
  let ?d = "if op = PlusToken then 1 else - 1 :: int"
  let ?c = "ctx\<lparr>num_cycles_left := num_cycles_left ctx - 1,
                buffer := (buffer ctx)[nat (ptr ctx) := (?v + ?d) mod 256]\<rparr>"
  have g: "getitem ?toks (int (length pre)) = Some op"
    using getitem_append_mid[of pre op "ops @ [ExitToken]"] by simp
  have f: "num_cycles_left ctx \<noteq> 0" using Cons.prems(4) by auto
  have op: "op = PlusToken \<or> op = MinusToken" using Cons.prems(1) by auto
  have s: "Code_step ?toks ctx (int (length pre)) = Next ?c (int (length pre) + 1)"
    using op step_Plus[OF _ f Cons.prems(2), of ?toks "int (length pre)"]
      step_Minus[OF _ f Cons.prems(2), of ?toks "int (length pre)"] g
    by auto
  have i: "nat (ptr ctx) < length (buffer ctx)" using Cons.prems(2) by (auto simp: ptr_ok_def)
  have "\<exists>ctx'. Code_exec_loop ((pre @ [op]) @ ops @ [ExitToken]) ?c (int (length (pre @ [op])))
              = Some (Inr ctx')
           \<and> ptr ctx' = ptr ?c \<and> length (buffer ctx') = length (buffer ?c)
           \<and> buffer ctx' ! nat (ptr ctx') = (buffer ?c ! nat (ptr ?c) + net_delta ops) mod 256"
    using Cons.prems i by (intro Cons.IH) (auto simp: ptr_ok_def)
  then obtain ctx' where r: "Code_exec_loop ?toks ?c (int (length pre) + 1) = Some (Inr ctx')"
    and p: "ptr ctx' = ptr ctx" "length (buffer ctx') = length (buffer ctx)"
    and v: "buffer ctx' ! nat (ptr ctx') = ((?v + ?d) mod 256 + net_delta ops) mod 256"
    using i by (auto simp: add.commute)
  have "net_delta (op # ops) = ?d + net_delta ops"
    using op by (auto simp: net_delta_def)
  then have "((?v + ?d) mod 256 + net_delta ops) mod 256 = (?v + net_delta (op # ops)) mod 256"
    by (simp add: mod_add_left_eq add.assoc)
  with r p v show ?case using loop_Next[OF s] by simp
qed

section \<open>The parser\<close>

lemma new_token_table:
  "new_token [c] = (case opcode_table c of None \<Rightarrow> Inl SyntaxError | Some t \<Rightarrow> Inr t)"
  by (simp add: new_token_def opcode_table_def)

lemma read_next_token_mid:
  "read_next_token \<lparr>code = pre @ c # rest, ptr = length pre\<rparr>
     = ([c], \<lparr>code = pre @ c # rest, ptr = length pre + 1\<rparr>)"
  by (simp add: read_next_token_def)

lemma read_next_token_end:
  "read_next_token \<lparr>code = pre, ptr = length pre\<rparr> = ([], \<lparr>code = pre, ptr = length pre + 1\<rparr>)"
  by (simp add: read_next_token_def)

lemma parse_loop_table:
  "parse_loop \<lparr>code = pre @ rest, ptr = length pre\<rparr> toks =
     (if list_all (\<lambda>c. c \<in> dom opcode_table) rest
      then (Inr (toks @ map (\<lambda>c. the (opcode_table c)) rest),
            \<lparr>code = pre @ rest, ptr = length pre + length rest + 1\<rparr>)
      else (Inl SyntaxError,
            \<lparr>code = pre @ rest,
             ptr = length pre + length (takeWhile (\<lambda>c. c \<in> dom opcode_table) rest) + 1\<rparr>))"
proof (induction rest arbitrary: pre toks)
  case Nil
  show ?case
    by (subst parse_loop.simps) (simp add: read_next_token_end)
next
  case (Cons c rest)
  show ?case
  proof (cases "opcode_table c")
    case None
    then show ?thesis
      by (subst parse_loop.simps) (simp add: read_next_token_mid new_token_table domIff)
  next
    case (Some t)
    have "parse_loop \<lparr>code = pre @ c # rest, ptr = length pre\<rparr> toks
          = parse_loop \<lparr>code = (pre @ [c]) @ rest, ptr = length (pre @ [c])\<rparr> (toks @ [t])"
      by (subst parse_loop.simps) (simp add: read_next_token_mid new_token_table Some)
    then show ?thesis
      using Some Cons.IH[of "pre @ [c]" "toks @ [t]"] by (simp add: domIff)
  qed
qed

lemma parse_goto_exit: "fst (parse (SourceCode_init ''^;'')) = Inr (Code [GoToToken, ExitToken])"
  by (simp add: parse_def SourceCode_init_def read_next_token_def new_token_def parse_loop.simps)

section \<open>Addresses outside the program\<close>



section \<open>The fuel counter\<close>

text \<open>
  C2, as the code has it. In a turn of the loop that starts with the fuel counter at
  0, the token is fetched first: an address outside the program raises
  \<open>IndexError\<close>, an \<open>ExitToken\<close> ends the run successfully, and any other
  token makes the run raise \<open>TimeoutError\<close> before the token is executed, the
  context being left as it was.
\<close>

theorem zero_fuel_step:
  assumes "num_cycles_left ctx = 0"
  shows "Code_exec_loop toks ctx code_pt =
           (case getitem toks code_pt of
              None \<Rightarrow> Some (Inl (IndexError, ctx))
            | Some token \<Rightarrow>
                if token = ExitToken then Some (Inr ctx)
                else Some (Inl (TimeoutError, ctx)))"
  using assms
  by (subst Code_exec_loop.simps)
     (simp add: Code_step_def Context_exec_def split: option.splits)

theorem zero_fuel_step_witness:
  "num_cycles_left (Context_init NoInput (BinaryOutput []) 65536 0) = 0
   \<and> Code_exec_loop [PlusToken, ExitToken] (Context_init NoInput (BinaryOutput []) 65536 0) 0
       = Some (Inl (TimeoutError, Context_init NoInput (BinaryOutput []) 65536 0))"
proof -
  have h: "num_cycles_left (Context_init NoInput (BinaryOutput []) 65536 0) = 0" by simp
  show ?thesis
    using h zero_fuel_step [OF h, of "[PlusToken, ExitToken]" 0] by (simp add: getitem_def)
qed

text \<open>
  C2 as stated fails: with fuel 0 the program \<open>;\<close> returns
  successfully, and the empty program raises \<open>IndexError\<close>, not \<open>TimeoutError\<close>.
\<close>

theorem halt_with_zero_fuel_returns:
  "module_exec '';'' NoInput (BinaryOutput []) 65536 0
     = Some (Inr (Context_init NoInput (BinaryOutput []) 65536 0))
   \<and> module_exec [] NoInput (BinaryOutput []) 65536 0
     = Some (Inl (IndexError, Context_init NoInput (BinaryOutput []) 65536 0))"
proof -
  have p1: "fst (parse (SourceCode_init '';'')) = Inr (Code [ExitToken])"
    by (simp add: parse_def SourceCode_init_def read_next_token_def new_token_def parse_loop.simps)
  have p2: "fst (parse (SourceCode_init [])) = Inr (Code [])"
    by (simp add: parse_def SourceCode_init_def read_next_token_def new_token_def parse_loop.simps)
  have a: "Code_exec_loop [ExitToken] c 0 = Some (Inr c)" for c
    by (rule loop_Halted) (simp add: Code_step_def getitem_def)
  have b: "Code_exec_loop [] c 0 = Some (Inl (IndexError, c))" for c
    by (rule loop_Raised) (simp add: Code_step_def getitem_def)
  show ?thesis by (simp add: module_exec_def p1 p2 Code_exec_def a b)
qed

text \<open>
  C3 at the fuel limit \<open>-1\<close>: the program \<open>^;\<close> never returns and never raises.
  Its first turn executes the goto and takes the counter from \<open>-1\<close> to \<open>-2\<close>;
  the test \<open>num_cycles_left == 0\<close> never holds afterwards.
\<close>

theorem negative_fuel_never_times_out:
  "module_exec ''^;'' NoInput (BinaryOutput []) 65536 (- 1) = None
   \<and> Code_step [GoToToken, ExitToken] (Context_init NoInput (BinaryOutput []) 65536 (- 1)) 0
       = Next (Context_init NoInput (BinaryOutput []) 65536 (- 2)) 0"
proof -
  let ?c = "Context_init NoInput (BinaryOutput []) 65536 (- 1)"
  have p: "ptr_ok ?c" by (rule Context_init_ptr_ok) simp
  have z: "buffer ?c ! nat (ptr ?c) = 0" by (simp add: Context_init_cell0)
  have a: "module_exec ''^;'' NoInput (BinaryOutput []) 65536 (- 1) = None"
    using goto_self_forever[OF p z] by (simp add: module_exec_def parse_goto_exit Code_exec_def)
  have b: "Code_step [GoToToken, ExitToken] ?c 0
       = Next (Context_init NoInput (BinaryOutput []) 65536 (- 2)) 0"
    using goto_self_step[OF p z] by simp
  show ?thesis using a b by simp
qed

section \<open>Halt\<close>

text \<open>
  C4. When the token fetched at the current address is \<open>ExitToken\<close>, the loop
  ends there and the run returns: the token is not executed, and the context (tape
  cells, cursor, files, fuel counter) is the one the turn started with, whatever the
  fuel counter holds.
\<close>

theorem halt_stops_before_exec:
  "getitem toks code_pt = Some ExitToken \<Longrightarrow>
     Code_step toks ctx code_pt = Halted ctx
     \<and> Code_exec_loop toks ctx code_pt = Some (Inr ctx)"
  by (simp add: loop_Halted Code_step_def)

theorem halt_stops_before_exec_witness:
  "getitem [ExitToken] 0 = Some ExitToken \<and>
   Code_step [ExitToken] (Context_init NoInput (BinaryOutput []) 65536 0) 0
     = Halted (Context_init NoInput (BinaryOutput []) 65536 0) \<and>
   Code_exec_loop [ExitToken] (Context_init NoInput (BinaryOutput []) 65536 0) 0
     = Some (Inr (Context_init NoInput (BinaryOutput []) 65536 0))"
proof -
  have h: "getitem [ExitToken] 0 = Some ExitToken" by (simp add: getitem_def)
  show ?thesis
    using h halt_stops_before_exec [OF h, of "Context_init NoInput (BinaryOutput []) 65536 0"]
    by simp
qed

section \<open>Control transfer\<close>




text \<open>
  A binary input stream that holds data and is no instance of \<open>typing.BinaryIO\<close>
  (any ordinary binary file) is not recognised by the \<open>isinstance\<close> test of
  \<open>Context.read\<close>; its bytes reach \<open>ord\<close>, and \<open>ReadToken\<close> raises
  \<open>TypeError\<close>.
\<close>

lemma binary_stream_read_raises:
  "Code_step [ReadToken, ExitToken]
     (Context_init (BytesStream [65]) (BinaryOutput []) 65536 16777216) 0
     = Raised TypeError (Context_init (BytesStream []) (BinaryOutput []) 65536 16777215)"
  by (simp add: Code_step_def getitem_def Context_exec_def Context_read_def stream_read_def
      Context_init_def)

section \<open>The cursor\<close>

text \<open>
  C7, as the code has it. For every tape capacity of at least 1 and every program,
  in every state of a run the cursor is in \<open>[0, capacity)\<close> and the tape keeps its
  capacity; executing \<open>ForwardToken\<close> raises nothing and moves the cursor by one,
  from \<open>capacity - 1\<close> to 0; executing \<open>BackwardToken\<close> raises nothing and moves
  it back by one, from 0 to \<open>capacity - 1\<close>.
\<close>

theorem cursor_wraps:
  assumes "reachable toks (Context_init inp out buffer_size num_cycles_limit) (ctx, code_pt)"
    and "0 < buffer_size"
  shows "0 \<le> ptr ctx \<and> ptr ctx < buffer_size \<and> int (length (buffer ctx)) = buffer_size
       \<and> (num_cycles_left ctx \<noteq> 0 \<and> getitem toks code_pt = Some ForwardToken \<longrightarrow>
            Code_step toks ctx code_pt
              = Next (ctx\<lparr>num_cycles_left := num_cycles_left ctx - 1,
                         ptr := (if ptr ctx = buffer_size - 1 then 0 else ptr ctx + 1)\<rparr>)
                     (code_pt + 1))
       \<and> (num_cycles_left ctx \<noteq> 0 \<and> getitem toks code_pt = Some BackwardToken \<longrightarrow>
            Code_step toks ctx code_pt
              = Next (ctx\<lparr>num_cycles_left := num_cycles_left ctx - 1,
                         ptr := (if ptr ctx = 0 then buffer_size - 1 else ptr ctx - 1)\<rparr>)
                     (code_pt + 1))"
proof -
  have p: "ptr_ok ctx"
    using reachable_ptr_ok[OF assms(1) Context_init_ptr_ok[OF assms(2)]] by simp
  have l: "int (length (buffer ctx)) = buffer_size"
    using reachable_length[OF assms(1)] assms(2) by (simp add: Context_init_length)
  have r: "0 \<le> ptr ctx" "ptr ctx < buffer_size" using p l by (simp_all add: ptr_ok_def)
  have f: "(ptr ctx + 1) mod buffer_size = (if ptr ctx = buffer_size - 1 then 0 else ptr ctx + 1)"
    using r by auto
  have b: "(ptr ctx - 1) mod buffer_size = (if ptr ctx = 0 then buffer_size - 1 else ptr ctx - 1)"
    using r assms(2) by (auto simp: zmod_minus1)
  show ?thesis
    using r l f b step_Forward[OF _ _ p, of toks code_pt] step_Backward[OF _ _ p, of toks code_pt]
    by simp
qed

text \<open>
  On a tape of two cells, after \<open><\<close> has taken the cursor from 0 to 1, \<open>>\<close>
  takes it from 1 to 0.
\<close>

theorem cursor_wraps_witness:
  "reachable [BackwardToken, ForwardToken, ExitToken]
     (Context_init NoInput (BinaryOutput []) 2 10)
     ((Context_init NoInput (BinaryOutput []) 2 9)\<lparr>ptr := 1\<rparr>, 1)
   \<and> (0::int) < 2
   \<and> Code_step [BackwardToken, ForwardToken, ExitToken]
        (Context_init NoInput (BinaryOutput []) 2 10) 0
       = Next ((Context_init NoInput (BinaryOutput []) 2 9)\<lparr>ptr := 1\<rparr>) 1
   \<and> Code_step [BackwardToken, ForwardToken, ExitToken]
        ((Context_init NoInput (BinaryOutput []) 2 9)\<lparr>ptr := 1\<rparr>) 1
       = Next ((Context_init NoInput (BinaryOutput []) 2 8)\<lparr>ptr := 0\<rparr>) 2"
proof -
  let ?toks = "[BackwardToken, ForwardToken, ExitToken]"
  let ?c0 = "Context_init NoInput (BinaryOutput []) 2 10"
  let ?c1 = "(Context_init NoInput (BinaryOutput []) 2 9)\<lparr>ptr := 1\<rparr>"
  have r0: "reachable ?toks ?c0 (?c0, 0)" by (rule reachable.start)
  have b: "(0::int) < 2" by simp
  have s0: "Code_step ?toks ?c0 0 = Next ?c1 1"
    using cursor_wraps [OF r0 b] by (simp add: getitem_def)
  have r1: "reachable ?toks ?c0 (?c1, 1)" by (rule reachable.step[OF r0 s0])
  have s1: "Code_step ?toks ?c1 1
       = Next ((Context_init NoInput (BinaryOutput []) 2 8)\<lparr>ptr := 0\<rparr>) 2"
    using cursor_wraps [OF r1 b] by (simp add: getitem_def Context_init_def)
  show ?thesis using r1 b s0 s1 by simp
qed

text \<open>
  C7 as stated fails for the capacity 0: the cursor 0 is not in the
  empty range, and \<open>ForwardToken\<close> raises \<open>ZeroDivisionError\<close>.
\<close>

theorem empty_tape_cursor:
  "ptr (Context_init NoInput (BinaryOutput []) 0 16777216) = 0
   \<and> length (buffer (Context_init NoInput (BinaryOutput []) 0 16777216)) = 0
   \<and> Code_step [ForwardToken, ExitToken] (Context_init NoInput (BinaryOutput []) 0 16777216) 0
       = Raised ZeroDivisionError (Context_init NoInput (BinaryOutput []) 0 16777215)"
  by (simp add: Code_step_def getitem_def Context_exec_def set_pointer_def pointer_def
      Context_init_def)

section \<open>The instruction address\<close>

text \<open>
  C10. In every state of a run the address is not negative. A turn that executes
  \<open>GoToToken\<close> gives an address in \<open>[0, 255]\<close>; a turn that gives an address
  above 255 executed another token and advanced by one.
\<close>

theorem code_pt_bounds:
  assumes "reachable toks (Context_init inp out buffer_size num_cycles_limit) (ctx, code_pt)"
  shows "0 \<le> code_pt
       \<and> (\<forall>ctx' code_pt'. Code_step toks ctx code_pt = Next ctx' code_pt' \<longrightarrow>
            0 \<le> code_pt'
            \<and> (getitem toks code_pt = Some GoToToken \<longrightarrow> code_pt' \<le> 255)
            \<and> (255 < code_pt' \<longrightarrow> getitem toks code_pt \<noteq> Some GoToToken \<and> code_pt' = code_pt + 1))"
proof -
  have n: "0 \<le> code_pt" using reachable_nonneg[OF assms] by simp
  have c: "cells_ok ctx"
    using reachable_cells_ok[OF assms Context_init_cells_ok] by simp
  {
    fix ctx' code_pt'
    assume s: "Code_step toks ctx code_pt = Next ctx' code_pt'"
    then obtain t pt where t: "getitem toks code_pt = Some t"
      and e: "Token_exec t (ctx\<lparr>num_cycles_left := num_cycles_left ctx - 1\<rparr>) = Inr (pt, ctx')"
      and pc: "code_pt' = (if pt < 0 then code_pt + 1 else pt)"
      using Code_step_NextD by blast
    have g: "t = GoToToken \<Longrightarrow> 0 \<le> pt \<and> pt \<le> 255"
      using e c current_value_byte[of "ctx\<lparr>num_cycles_left := num_cycles_left ctx - 1\<rparr>" pt]
      by (auto split: sum.splits)
    have o: "t \<noteq> GoToToken \<Longrightarrow> pt = - 1"
      using e by (cases t) (auto split: sum.splits prod.splits)
    have "0 \<le> code_pt'
            \<and> (getitem toks code_pt = Some GoToToken \<longrightarrow> code_pt' \<le> 255)
            \<and> (255 < code_pt' \<longrightarrow> getitem toks code_pt \<noteq> Some GoToToken \<and> code_pt' = code_pt + 1)"
      using g o t pc n by (cases "t = GoToToken") auto
  }
  with n show ?thesis by blast
qed

theorem code_pt_bounds_witness:
  "reachable [GoToToken, ExitToken] (Context_init NoInput (BinaryOutput []) 2 10)
     (Context_init NoInput (BinaryOutput []) 2 10, 0)
   \<and> Code_step [GoToToken, ExitToken] (Context_init NoInput (BinaryOutput []) 2 10) 0
       = Next (Context_init NoInput (BinaryOutput []) 2 9) 0
   \<and> getitem [GoToToken, ExitToken] 0 = Some GoToToken
   \<and> (0::int) \<le> 0 \<and> (0::int) \<le> 255"
proof -
  let ?c0 = "Context_init NoInput (BinaryOutput []) 2 10"
  have r: "reachable [GoToToken, ExitToken] ?c0 (?c0, 0)" by (rule reachable.start)
  have p: "ptr_ok ?c0" by (rule Context_init_ptr_ok) simp
  have z: "buffer ?c0 ! nat (ptr ?c0) = 0" by (simp add: Context_init_cell0)
  have s: "Code_step [GoToToken, ExitToken] ?c0 0
       = Next (Context_init NoInput (BinaryOutput []) 2 9) 0"
    using goto_self_step[OF p z] by simp
  show ?thesis
    using r s getitem_GoTo_Exit_0 code_pt_bounds [OF r] by simp
qed

section \<open>Cell values\<close>

text \<open>
  C6. In every state of a run every tape cell holds a value in \<open>[0, 255]\<close>. From
  such a state on a tape of at least one cell, running any sequence of
  \<open>PlusToken\<close> and \<open>MinusToken\<close> (followed by \<open>ExitToken\<close>, with fuel for
  each of them) returns, and the current cell then holds its initial value plus the
  net delta of the sequence, modulo 256.
\<close>

theorem cell_wrap:
  assumes "reachable toks (Context_init inp out buffer_size num_cycles_limit) (ctx, code_pt)"
  shows "(\<forall>v \<in> set (buffer ctx). 0 \<le> v \<and> v \<le> 255)
       \<and> (\<forall>ops. 0 < buffer_size \<and> set ops \<subseteq> {PlusToken, MinusToken}
                \<and> int (length ops) \<le> num_cycles_left ctx \<longrightarrow>
            (\<exists>v0 ctx'. current_value ctx = Inr v0
               \<and> Code_exec (Code (ops @ [ExitToken])) ctx = Some (Inr ctx')
               \<and> current_value ctx' = Inr ((v0 + net_delta ops) mod 256)
               \<and> 0 \<le> (v0 + net_delta ops) mod 256 \<and> (v0 + net_delta ops) mod 256 \<le> 255))"
proof -
  have c: "cells_ok ctx"
    using reachable_cells_ok[OF assms Context_init_cells_ok] by simp
  then have a: "\<forall>v \<in> set (buffer ctx). 0 \<le> v \<and> v \<le> 255"
    by (auto simp: cells_ok_def list_all_iff)
  {
    fix ops
    assume b: "0 < buffer_size" and o: "set ops \<subseteq> {PlusToken, MinusToken}"
      and f: "int (length ops) \<le> num_cycles_left ctx"
    have p: "ptr_ok ctx"
      using reachable_ptr_ok[OF assms Context_init_ptr_ok[OF b]] by simp
    let ?v0 = "buffer ctx ! nat (ptr ctx)"
    have "nat (ptr ctx) < length (buffer ctx)" using p by (auto simp: ptr_ok_def)
    then have "?v0 \<in> set (buffer ctx)" by (rule nth_mem)
    then have v: "0 \<le> ?v0 \<and> ?v0 < 256" using a by fastforce
    obtain ctx' where r: "Code_exec_loop ([] @ ops @ [ExitToken]) ctx (int (length ([]::Token list)))
                            = Some (Inr ctx')"
      and q: "ptr ctx' = ptr ctx" "length (buffer ctx') = length (buffer ctx)"
      and w: "buffer ctx' ! nat (ptr ctx') = (?v0 + net_delta ops) mod 256"
      using run_plus_minus[OF o p v f, of "[]"] by blast
    have "ptr_ok ctx'" using p q by (simp add: ptr_ok_def)
    then have "current_value ctx' = Inr ((?v0 + net_delta ops) mod 256)"
      using w by (simp add: current_value_ok)
    then have "\<exists>v0 ctx'. current_value ctx = Inr v0
               \<and> Code_exec (Code (ops @ [ExitToken])) ctx = Some (Inr ctx')
               \<and> current_value ctx' = Inr ((v0 + net_delta ops) mod 256)
               \<and> 0 \<le> (v0 + net_delta ops) mod 256 \<and> (v0 + net_delta ops) mod 256 \<le> 255"
      using r current_value_ok[OF p] by (auto simp: Code_exec_def)
  }
  with a show ?thesis by blast
qed

text \<open>One decrement of a cell that holds 0 gives 255.\<close>

theorem cell_wrap_witness:
  "reachable [] (Context_init NoInput (BinaryOutput []) 2 10)
     (Context_init NoInput (BinaryOutput []) 2 10, 0)
   \<and> set (buffer (Context_init NoInput (BinaryOutput []) 2 10)) = {0}
   \<and> (\<exists>ctx'. Code_exec (Code ([MinusToken] @ [ExitToken]))
                (Context_init NoInput (BinaryOutput []) 2 10) = Some (Inr ctx')
             \<and> current_value ctx' = Inr 255)"
proof -
  let ?c0 = "Context_init NoInput (BinaryOutput []) 2 10"
  have r: "reachable [] ?c0 (?c0, 0)" by (rule reachable.start)
  have s: "set (buffer ?c0) = {0}" by (simp add: Context_init_def)
  have v: "current_value ?c0 = Inr 0"
    by (simp add: current_value_def getitem_def Context_init_def)
  have n: "net_delta [MinusToken] = - 1" by (simp add: net_delta_def)
  have "\<forall>ops. 0 < (2::int) \<and> set ops \<subseteq> {PlusToken, MinusToken}
                \<and> int (length ops) \<le> num_cycles_left ?c0 \<longrightarrow>
            (\<exists>v0 ctx'. current_value ?c0 = Inr v0
               \<and> Code_exec (Code (ops @ [ExitToken])) ?c0 = Some (Inr ctx')
               \<and> current_value ctx' = Inr ((v0 + net_delta ops) mod 256)
               \<and> 0 \<le> (v0 + net_delta ops) mod 256 \<and> (v0 + net_delta ops) mod 256 \<le> 255)"
    using cell_wrap [OF r] by (rule conjunct2)
  then have "0 < (2::int) \<and> set [MinusToken] \<subseteq> {PlusToken, MinusToken}
                \<and> int (length [MinusToken]) \<le> num_cycles_left ?c0 \<longrightarrow>
            (\<exists>v0 ctx'. current_value ?c0 = Inr v0
               \<and> Code_exec (Code ([MinusToken] @ [ExitToken])) ?c0 = Some (Inr ctx')
               \<and> current_value ctx' = Inr ((v0 + net_delta [MinusToken]) mod 256)
               \<and> 0 \<le> (v0 + net_delta [MinusToken]) mod 256
               \<and> (v0 + net_delta [MinusToken]) mod 256 \<le> 255)"
    by (rule spec)
  then show ?thesis using r s v n by auto
qed

section \<open>The tokenizer\<close>

text \<open>
  C8. \<open>Code.parse\<close> on a text read from its start: when every byte is in the
  table of eight, the result is the code whose tokens are the table's images of the
  bytes, in order and one per byte; otherwise the result is \<open>SyntaxError\<close>, with
  no code, and the source object has been read up to the first byte outside the
  table and no further.
\<close>

theorem parse_by_table:
  "parse (SourceCode_init source) =
     (if list_all (\<lambda>c. c \<in> dom opcode_table) source
      then (Inr (Code (map (\<lambda>c. the (opcode_table c)) source)),
            \<lparr>code = source, ptr = length source + 1\<rparr>)
      else (Inl SyntaxError,
            \<lparr>code = source,
             ptr = length (takeWhile (\<lambda>c. c \<in> dom opcode_table) source) + 1\<rparr>))"
  using parse_loop_table[of "[]" source "[]"]
  by (simp add: parse_def SourceCode_init_def)

text \<open>The text \<open>+@;\<close> fails at its second byte, the text \<open>+++.;\<close> gives five tokens.\<close>

theorem parse_by_table_witness:
  "parse (SourceCode_init ''+@;'') = (Inl SyntaxError, \<lparr>code = ''+@;'', ptr = 2\<rparr>)
   \<and> parse (SourceCode_init ''+++.;'')
       = (Inr (Code [PlusToken, PlusToken, PlusToken, PrintToken, ExitToken]),
          \<lparr>code = ''+++.;'', ptr = 6\<rparr>)"
  using parse_by_table [of "''+@;''"] parse_by_table [of "''+++.;''"]
  by (simp add: opcode_table_def)

section \<open>The program that jumps to itself\<close>

text \<open>
  C9. The text \<open>^;\<close> parses to a goto and an exit. With the default tape and the
  fuel limit 1000, for every input and output file, the run raises
  \<open>TimeoutError\<close> and leaves the initial context with the fuel counter at 0: all
  1000 units are used, nothing is written, nothing is read, the tape is unchanged.
  Every turn with fuel left executes the goto, uses one unit and jumps to address 0.
\<close>

theorem goto_self_exhausts_fuel:
  "module_exec ''^;'' inp out 65536 1000
     = Some (Inl (TimeoutError, Context_init inp out 65536 0))
   \<and> fst (parse (SourceCode_init ''^;'')) = Inr (Code [GoToToken, ExitToken])
   \<and> Code_step [GoToToken, ExitToken] (Context_init inp out 65536 (1 + int n)) 0
       = Next (Context_init inp out 65536 (int n)) 0"
proof -
  let ?c = "Context_init inp out 65536 1000"
  have p: "ptr_ok (Context_init inp out 65536 k)" for k by (rule Context_init_ptr_ok) simp
  have z: "buffer (Context_init inp out 65536 k) ! nat (ptr (Context_init inp out 65536 k)) = 0" for k
    by (simp add: Context_init_cell0)
  have "num_cycles_left ?c = int 1000" by simp
  from goto_self_timeout[OF p z this]
  have a: "module_exec ''^;'' inp out 65536 1000
     = Some (Inl (TimeoutError, Context_init inp out 65536 0))"
    by (simp add: module_exec_def parse_goto_exit Code_exec_def)
  have b: "Code_step [GoToToken, ExitToken] (Context_init inp out 65536 (1 + int n)) 0
       = Next (Context_init inp out 65536 (int n)) 0"
    using goto_self_step[OF p z, of "1 + int n"] by simp
  show ?thesis using a b parse_goto_exit by simp
qed

end
